theory Spec2Isabelle
  imports Main "HOL-Library.Multiset"
begin

section \<open>The signal dispatcher of src/dispatch/dispatcher.py\<close>

text \<open>
  A shallow embedding of the class \<open>Signal\<close>. One thread is modelled, so the lock
  only shows as the flag \<open>locked\<close> of a resolution (did it enter the
  \<^verbatim>\<open>with self.lock\<close> block). Receivers are called through a function \<open>call\<close>
  of the receiver, the sender and the named arguments; a receiver does not call
  back into the signal. Object identities are never reused. Of the two branches on
  \<^verbatim>\<open>sys.version_info\<close> the one for Python 3.4 and later is modelled; in both the
  runtime calls \<open>_remove_receiver\<close> when a weakly held receiver is collected.
\<close>

subsection \<open>Python objects, identities and values\<close>

text \<open>
  The objects a caller passes as receiver or sender: \<open>None\<close>, an ordinary object
  (function, class, instance; hashable by identity and weakly referenceable), or a
  bound method of an owner and a function. Objects are numbered; \<open>id(None)\<close> is 0
  and the object \<open>n\<close> has the address \<open>n + 1\<close>.
\<close>

datatype pyobj = PyNone | Obj nat | Method nat nat

text \<open>Values of \<open>dispatch_uid\<close> and of identities: \<open>None\<close>, integers, strings, tuples.\<close>

datatype pyval = VNone | VInt int | VStr string | VTuple "pyval list"

definition py_id :: "nat \<Rightarrow> int" where
  "py_id n = int n + 1"

fun make_id :: "pyobj \<Rightarrow> pyval" where
  "make_id (Method self func) = VTuple [VInt (py_id self), VInt (py_id func)]"
| "make_id PyNone = VInt 0"
| "make_id (Obj n) = VInt (py_id n)"

definition NONE_ID :: pyval where
  "NONE_ID = make_id PyNone"

text \<open>Truth value of a \<open>dispatch_uid\<close> in \<^verbatim>\<open>if dispatch_uid:\<close>.\<close>

fun truthy :: "pyval \<Rightarrow> bool" where
  "truthy VNone = False"
| "truthy (VInt i) = (i \<noteq> 0)"
| "truthy (VStr s) = (s \<noteq> [])"
| "truthy (VTuple vs) = (vs \<noteq> [])"

text \<open>\<^verbatim>\<open>weakref.ref(x)\<close> raises TypeError for \<open>None\<close>.\<close>

fun weakrefable :: "pyobj \<Rightarrow> bool" where
  "weakrefable PyNone = False"
| "weakrefable (Obj n) = True"
| "weakrefable (Method self func) = True"

text \<open>
  The set \<open>dead\<close> holds the numbers of the objects already collected. A weak
  reference to an object, called, gives the object while it lives; a
  \<open>WeakMethod\<close> needs both the owner and the function.
\<close>

fun alive :: "nat set \<Rightarrow> pyobj \<Rightarrow> bool" where
  "alive dead PyNone = True"
| "alive dead (Obj n) = (n \<notin> dead)"
| "alive dead (Method self func) = (self \<notin> dead \<and> func \<notin> dead)"

subsection \<open>Errors and receiver outcomes\<close>

text \<open>
  An exception object raised by a receiver: whether it is an instance of
  \<open>Exception\<close>, its \<open>__traceback__\<close> attribute (\<open>None\<close> when the attribute is
  absent) and a payload.
\<close>

record rexc =
  is_Exception :: bool
  traceback :: "nat option"
  payload :: nat

text \<open>A call of a receiver returns, or raises an exception with the traceback
  that \<^verbatim>\<open>sys.exc_info()[2]\<close> shows in the handler.\<close>

datatype 'v outcome = Returned 'v | Raised rexc nat

text \<open>What an operation of the signal raises: its own errors, or a receiver's.\<close>

datatype err = AssertionError | ValueError | TypeError | Propagated rexc

subsection \<open>The signal\<close>

datatype handle = Strong pyobj | Weak pyobj

type_synonym lookup_key = "pyval \<times> pyval"

type_synonym entry = "lookup_key \<times> handle"

datatype cache_val = NO_RECEIVERS | Cached "handle list"

record signal =
  receivers :: "entry list"
  providing_args :: "string set"
  use_caching :: bool
  sender_receivers_cache :: "pyobj \<rightharpoonup> cache_val"
  dead_receivers :: bool

text \<open>\<^verbatim>\<open>Signal.__init__(providing_args=None, use_caching=False)\<close>\<close>

definition Signal :: "string list option \<Rightarrow> bool \<Rightarrow> signal" where
  "Signal pargs caching =
     \<lparr>receivers = [],
      providing_args = set (case pargs of None \<Rightarrow> [] | Some xs \<Rightarrow> xs),
      use_caching = caching,
      sender_receivers_cache = Map.empty,
      dead_receivers = False\<rparr>"

text \<open>
  \<^verbatim>\<open>self.sender_receivers_cache.get(sender)\<close> and
  \<^verbatim>\<open>self.sender_receivers_cache[sender] = v\<close>. With caching the cache is a
  \<open>WeakKeyDictionary\<close>, which takes a weak reference to the key first; without
  it the cache is a dict, and every object of \<open>pyobj\<close> is hashable.
\<close>

definition cache_get :: "signal \<Rightarrow> pyobj \<Rightarrow> err + cache_val option" where
  "cache_get s sender =
     (if use_caching s \<and> \<not> weakrefable sender then Inl TypeError
      else Inr (sender_receivers_cache s sender))"

definition cache_set :: "signal \<Rightarrow> pyobj \<Rightarrow> cache_val \<Rightarrow> err + signal" where
  "cache_set s sender v =
     (if use_caching s \<and> \<not> weakrefable sender then Inl TypeError
      else Inr (s\<lparr>sender_receivers_cache := (sender_receivers_cache s)(sender \<mapsto> v)\<rparr>))"

text \<open>Lines 97-100 and 146-149: the key of \<open>connect\<close> and of \<open>disconnect\<close>.\<close>

definition connect_key :: "pyobj \<Rightarrow> pyobj \<Rightarrow> pyval \<Rightarrow> lookup_key" where
  "connect_key receiver sender dispatch_uid =
     (if truthy dispatch_uid then (dispatch_uid, make_id sender)
      else (make_id receiver, make_id sender))"

definition disconnect_key :: "pyobj \<Rightarrow> pyobj \<Rightarrow> pyval \<Rightarrow> lookup_key" where
  "disconnect_key receiver sender dispatch_uid =
     (if truthy dispatch_uid then (dispatch_uid, make_id sender)
      else (make_id receiver, make_id sender))"

text \<open>\<^verbatim>\<open>isinstance(r[1], weakref.ReferenceType) and r[1]() is None\<close>\<close>

fun is_dead_ref :: "nat set \<Rightarrow> handle \<Rightarrow> bool" where
  "is_dead_ref dead (Strong r) = False"
| "is_dead_ref dead (Weak r) = (\<not> alive dead r)"

definition clear_dead_receivers :: "nat set \<Rightarrow> signal \<Rightarrow> signal" where
  "clear_dead_receivers dead s =
     (if dead_receivers s
      then s\<lparr>dead_receivers := False,
             receivers := filter (\<lambda>r. \<not> is_dead_ref dead (snd r)) (receivers s)\<rparr>
      else s)"

text \<open>The settings and helpers \<open>connect\<close> imports: \<open>DEBUG\<close> stands for
  \<^verbatim>\<open>settings.configured and settings.DEBUG\<close>.\<close>

record conf =
  DEBUG :: bool
  callable :: "pyobj \<Rightarrow> bool"
  func_accepts_kwargs :: "pyobj \<Rightarrow> bool"

text \<open>The \<^verbatim>\<open>for ... else\<close> of \<open>connect\<close>: is the key in the table.\<close>

fun has_key :: "lookup_key \<Rightarrow> entry list \<Rightarrow> bool" where
  "has_key k [] = False"
| "has_key k ((r_key, h) # rs) = (if r_key = k then True else has_key k rs)"

text \<open>
  \<open>connect\<close>. The registration \<^verbatim>\<open>weakref.finalize(receiver_object,
  self._remove_receiver)\<close> changes no field of the signal: its effect is the later
  call of \<open>remove_receiver\<close> by the runtime, an event of its own below.
\<close>

definition connect ::
  "conf \<Rightarrow> nat set \<Rightarrow> signal \<Rightarrow> pyobj \<Rightarrow> pyobj \<Rightarrow> bool \<Rightarrow> pyval \<Rightarrow> err + signal" where
  "connect cf dead s receiver sender weak dispatch_uid =
     (if DEBUG cf \<and> \<not> callable cf receiver then Inl AssertionError
      else if DEBUG cf \<and> \<not> func_accepts_kwargs cf receiver then Inl ValueError
      else if weak \<and> \<not> weakrefable receiver then Inl TypeError
      else
        let lookup_key = connect_key receiver sender dispatch_uid;
            h = (if weak then Weak receiver else Strong receiver);
            s1 = clear_dead_receivers dead s;
            s2 = (if has_key lookup_key (receivers s1) then s1
                  else s1\<lparr>receivers := receivers s1 @ [(lookup_key, h)]\<rparr>)
        in Inr (s2\<lparr>sender_receivers_cache := Map.empty\<rparr>))"

text \<open>The index loop of \<open>disconnect\<close>: delete the first entry with the key.\<close>

fun remove_first :: "lookup_key \<Rightarrow> entry list \<Rightarrow> bool \<times> entry list" where
  "remove_first k [] = (False, [])"
| "remove_first k ((r_key, h) # rs) =
     (if r_key = k then (True, rs)
      else (case remove_first k rs of (d, rs') \<Rightarrow> (d, (r_key, h) # rs')))"

definition disconnect ::
  "nat set \<Rightarrow> signal \<Rightarrow> pyobj \<Rightarrow> pyobj \<Rightarrow> bool \<Rightarrow> pyval \<Rightarrow> bool \<times> signal" where
  "disconnect dead s receiver sender weak dispatch_uid =
     (let lookup_key = disconnect_key receiver sender dispatch_uid;
          s1 = clear_dead_receivers dead s;
          (disconnected, rs) = remove_first lookup_key (receivers s1)
      in (disconnected, s1\<lparr>receivers := rs, sender_receivers_cache := Map.empty\<rparr>))"

text \<open>\<open>_remove_receiver\<close>, the callback of the runtime.\<close>

definition remove_receiver :: "signal \<Rightarrow> signal" where
  "remove_receiver s = s\<lparr>dead_receivers := True\<rparr>"

subsection \<open>Resolution\<close>

text \<open>Lines 264-266: the handles of the entries for a sender key, in table order.\<close>

fun scan :: "pyval \<Rightarrow> entry list \<Rightarrow> handle list" where
  "scan senderkey [] = []"
| "scan senderkey (((receiverkey, r_senderkey), receiver) # rs) =
     (if r_senderkey = NONE_ID \<or> r_senderkey = senderkey
      then receiver # scan senderkey rs else scan senderkey rs)"

text \<open>Lines 273-281: dereference; a dead weak reference is skipped.\<close>

fun resolve :: "nat set \<Rightarrow> handle list \<Rightarrow> pyobj list" where
  "resolve dead [] = []"
| "resolve dead (Strong r # hs) = r # resolve dead hs"
| "resolve dead (Weak r # hs) =
     (if alive dead r then r # resolve dead hs else resolve dead hs)"

text \<open>The result of a resolution or a dispatch: the signal afterwards, whether the
  lock was taken, and the value returned or the error raised.\<close>

record 'a ret =
  post :: signal
  locked :: bool
  result :: "err + 'a"

text \<open>The \<^verbatim>\<open>with self.lock\<close> block of \<open>_live_receivers\<close>, lines 260-272.\<close>

definition rescan :: "nat set \<Rightarrow> signal \<Rightarrow> pyobj \<Rightarrow> signal \<times> (err + handle list)" where
  "rescan dead s sender =
     (let s1 = clear_dead_receivers dead s;
          senderkey = make_id sender;
          hs = scan senderkey (receivers s1)
      in if use_caching s1
         then (case cache_set s1 sender (if hs = [] then NO_RECEIVERS else Cached hs) of
                 Inl e \<Rightarrow> (s1, Inl e)
               | Inr s2 \<Rightarrow> (s2, Inr hs))
         else (s1, Inr hs))"

definition live_receivers :: "nat set \<Rightarrow> signal \<Rightarrow> pyobj \<Rightarrow> pyobj list ret" where
  "live_receivers dead s sender =
     (let looked = (if use_caching s \<and> \<not> dead_receivers s then cache_get s sender
                    else Inr None)
      in case looked of
           Inl e \<Rightarrow> \<lparr>post = s, locked = False, result = Inl e\<rparr>
         | Inr (Some NO_RECEIVERS) \<Rightarrow> \<lparr>post = s, locked = False, result = Inr []\<rparr>
         | Inr (Some (Cached hs)) \<Rightarrow>
             \<lparr>post = s, locked = False, result = Inr (resolve dead hs)\<rparr>
         | Inr None \<Rightarrow>
             (case rescan dead s sender of
                (s', Inl e) \<Rightarrow> \<lparr>post = s', locked = True, result = Inl e\<rparr>
              | (s', Inr hs) \<Rightarrow>
                  \<lparr>post = s', locked = True, result = Inr (resolve dead hs)\<rparr>))"

definition has_listeners :: "nat set \<Rightarrow> signal \<Rightarrow> pyobj \<Rightarrow> bool ret" where
  "has_listeners dead s sender =
     (let lr = live_receivers dead s sender
      in \<lparr>post = post lr, locked = locked lr,
          result = (case result lr of Inl e \<Rightarrow> Inl e | Inr rs \<Rightarrow> Inr (rs \<noteq> []))\<rparr>)"

subsection \<open>Dispatch\<close>

text \<open>
  The loops of \<open>send\<close> and \<open>send_robust\<close> over the resolved receivers. Beside the
  result they give the receivers called, in the order of the calls.
\<close>

fun send_loop ::
  "(pyobj \<Rightarrow> pyobj \<Rightarrow> 'n \<Rightarrow> 'v outcome) \<Rightarrow> pyobj \<Rightarrow> 'n \<Rightarrow> pyobj list
     \<Rightarrow> pyobj list \<times> (err + (pyobj \<times> 'v) list)" where
  "send_loop call sender named [] = ([], Inr [])"
| "send_loop call sender named (receiver # rs) =
     (case call receiver sender named of
        Raised e tb \<Rightarrow> ([receiver], Inl (Propagated e))
      | Returned response \<Rightarrow>
          (case send_loop call sender named rs of
             (cs, Inl e) \<Rightarrow> (receiver # cs, Inl e)
           | (cs, Inr responses) \<Rightarrow>
               (receiver # cs, Inr ((receiver, response) # responses))))"

text \<open>Lines 227-228: the traceback is attached when the error has none.\<close>

definition attach_traceback :: "rexc \<Rightarrow> nat \<Rightarrow> rexc" where
  "attach_traceback e tb =
     (if traceback e = None then e\<lparr>traceback := Some tb\<rparr> else e)"

fun send_robust_loop ::
  "(pyobj \<Rightarrow> pyobj \<Rightarrow> 'n \<Rightarrow> 'v outcome) \<Rightarrow> pyobj \<Rightarrow> 'n \<Rightarrow> pyobj list
     \<Rightarrow> pyobj list \<times> (err + (pyobj \<times> (rexc + 'v)) list)" where
  "send_robust_loop call sender named [] = ([], Inr [])"
| "send_robust_loop call sender named (receiver # rs) =
     (case call receiver sender named of
        Raised e tb \<Rightarrow>
          (if is_Exception e
           then (case send_robust_loop call sender named rs of
                   (cs, Inl e') \<Rightarrow> (receiver # cs, Inl e')
                 | (cs, Inr responses) \<Rightarrow>
                     (receiver # cs,
                      Inr ((receiver, Inl (attach_traceback e tb)) # responses)))
           else ([receiver], Inl (Propagated e)))
      | Returned response \<Rightarrow>
          (case send_robust_loop call sender named rs of
             (cs, Inl e') \<Rightarrow> (receiver # cs, Inl e')
           | (cs, Inr responses) \<Rightarrow>
               (receiver # cs, Inr ((receiver, Inr response) # responses))))"

record 'a sent = "'a ret" +
  calls :: "pyobj list"

text \<open>Lines 184-191 and 217-232, over the loop \<open>loop\<close>.\<close>

definition dispatch ::
  "(pyobj list \<Rightarrow> pyobj list \<times> (err + 'a list)) \<Rightarrow> nat set \<Rightarrow> signal \<Rightarrow> pyobj
     \<Rightarrow> 'a list sent" where
  "dispatch loop dead s sender =
     (if receivers s = []
      then \<lparr>post = s, locked = False, result = Inr [], calls = []\<rparr>
      else case cache_get s sender of
             Inl e \<Rightarrow> \<lparr>post = s, locked = False, result = Inl e, calls = []\<rparr>
           | Inr (Some NO_RECEIVERS) \<Rightarrow>
               \<lparr>post = s, locked = False, result = Inr [], calls = []\<rparr>
           | Inr _ \<Rightarrow>
               (let lr = live_receivers dead s sender
                in case result lr of
                     Inl e \<Rightarrow> \<lparr>post = post lr, locked = locked lr, result = Inl e,
                               calls = []\<rparr>
                   | Inr rs \<Rightarrow>
                       (case loop rs of
                          (cs, res) \<Rightarrow> \<lparr>post = post lr, locked = locked lr,
                                         result = res, calls = cs\<rparr>)))"

definition send ::
  "(pyobj \<Rightarrow> pyobj \<Rightarrow> 'n \<Rightarrow> 'v outcome) \<Rightarrow> nat set \<Rightarrow> signal \<Rightarrow> pyobj \<Rightarrow> 'n
     \<Rightarrow> (pyobj \<times> 'v) list sent" where
  "send call dead s sender named = dispatch (send_loop call sender named) dead s sender"

definition send_robust ::
  "(pyobj \<Rightarrow> pyobj \<Rightarrow> 'n \<Rightarrow> 'v outcome) \<Rightarrow> nat set \<Rightarrow> signal \<Rightarrow> pyobj \<Rightarrow> 'n
     \<Rightarrow> (pyobj \<times> (rexc + 'v)) list sent" where
  "send_robust call dead s sender named =
     dispatch (send_robust_loop call sender named) dead s sender"

subsection \<open>Sequences of operations\<close>

text \<open>
  What can happen to a signal, one event at a time: the calls of its methods, the
  collection of an object by the runtime (with or without a call of
  \<open>_remove_receiver\<close>: more than the runtime does, which calls it for every object
  a weak \<open>connect\<close> has named), and the disappearance of the cache entry of a
  collected sender from the \<open>WeakKeyDictionary\<close>. A call that raises keeps the
  state it has reached.
\<close>

datatype 'n op =
    Connect pyobj pyobj bool pyval
  | Disconnect pyobj pyobj bool pyval
  | Send pyobj 'n
  | SendRobust pyobj 'n
  | HasListeners pyobj
  | Collect nat bool
  | Expire pyobj

fun exec ::
  "(pyobj \<Rightarrow> pyobj \<Rightarrow> 'n \<Rightarrow> 'v outcome) \<Rightarrow> conf \<Rightarrow> nat set \<times> signal \<Rightarrow> 'n op
     \<Rightarrow> nat set \<times> signal" where
  "exec call cf (dead, s) (Connect receiver sender weak dispatch_uid) =
     (case connect cf dead s receiver sender weak dispatch_uid of
        Inl e \<Rightarrow> (dead, s) | Inr s' \<Rightarrow> (dead, s'))"
| "exec call cf (dead, s) (Disconnect receiver sender weak dispatch_uid) =
     (dead, snd (disconnect dead s receiver sender weak dispatch_uid))"
| "exec call cf (dead, s) (Send sender named) =
     (dead, post (send call dead s sender named))"
| "exec call cf (dead, s) (SendRobust sender named) =
     (dead, post (send_robust call dead s sender named))"
| "exec call cf (dead, s) (HasListeners sender) =
     (dead, post (has_listeners dead s sender))"
| "exec call cf (dead, s) (Collect n notified) =
     (insert n dead, if notified then remove_receiver s else s)"
| "exec call cf (dead, s) (Expire sender) =
     (dead, if use_caching s
            then s\<lparr>sender_receivers_cache := (sender_receivers_cache s)(sender := None)\<rparr>
            else s)"

definition run ::
  "(pyobj \<Rightarrow> pyobj \<Rightarrow> 'n \<Rightarrow> 'v outcome) \<Rightarrow> conf \<Rightarrow> nat set \<times> signal \<Rightarrow> 'n op list
     \<Rightarrow> nat set \<times> signal" where
  "run call cf w ops = foldl (exec call cf) w ops"

subsection \<open>The receivers a dispatch is expected to reach\<close>

fun target :: "handle \<Rightarrow> pyobj" where
  "target (Strong r) = r"
| "target (Weak r) = r"

text \<open>
  In the words of the specification: the receivers of the entries connected with
  sender \<open>None\<close> or with the identity of \<open>sender\<close>, whose handle is not a dead weak
  reference, in the order of the table.
\<close>

definition selects :: "pyobj \<Rightarrow> entry \<Rightarrow> bool" where
  "selects sender e = (snd (fst e) = make_id PyNone \<or> snd (fst e) = make_id sender)"

definition connected_live :: "nat set \<Rightarrow> signal \<Rightarrow> pyobj \<Rightarrow> pyobj list" where
  "connected_live dead s sender =
     map (\<lambda>e. target (snd e))
       (filter (\<lambda>e. selects sender e \<and> \<not> is_dead_ref dead (snd e)) (receivers s))"

text \<open>The cache can take the sender as a key.\<close>

definition cache_accepts :: "signal \<Rightarrow> pyobj \<Rightarrow> bool" where
  "cache_accepts s sender = (\<not> use_caching s \<or> weakrefable sender)"

text \<open>The handles a cache value stands for.\<close>

fun cached_handles :: "cache_val \<Rightarrow> handle list" where
  "cached_handles NO_RECEIVERS = []"
| "cached_handles (Cached hs) = hs"

text \<open>
  The invariant of the table and the cache: keys are distinct, a signal without
  caching has an empty cache, and a cached list agrees with the table on the
  handles that are not dead weak references.
\<close>

definition consistent :: "nat set \<Rightarrow> signal \<Rightarrow> bool" where
  "consistent dead s =
     (distinct (map fst (receivers s)) \<and>
      (\<not> use_caching s \<longrightarrow> sender_receivers_cache s = Map.empty) \<and>
      (\<forall>sender v. sender_receivers_cache s sender = Some v \<longrightarrow>
         filter (\<lambda>h. \<not> is_dead_ref dead h) (cached_handles v) =
         filter (\<lambda>h. \<not> is_dead_ref dead h) (scan (make_id sender) (receivers s))))"

subsection \<open>The outcome of the loops, receiver by receiver\<close>





subsection \<open>Example inputs\<close>

definition ex_conf :: conf where
  "ex_conf = \<lparr>DEBUG = False, callable = (\<lambda>r. True), func_accepts_kwargs = (\<lambda>r. True)\<rparr>"

definition ex_error :: rexc where
  "ex_error = \<lparr>is_Exception = True, traceback = None, payload = 7\<rparr>"

text \<open>The receiver \<open>Obj 2\<close> raises, every other receiver returns ten times its
  number.\<close>

definition ex_call :: "pyobj \<Rightarrow> pyobj \<Rightarrow> unit \<Rightarrow> nat outcome" where
  "ex_call r sender named =
     (if r = Obj 2 then Raised ex_error 99
      else Returned (case r of Obj n \<Rightarrow> 10 * n | _ \<Rightarrow> 0))"





text \<open>A (object 1) connected for the sender 5 and also for every sender.\<close>

definition ex_twice :: "nat set \<times> signal" where
  "ex_twice = run ex_call ex_conf ({}, Signal None False)
     [Connect (Obj 1) (Obj 5) True VNone, Connect (Obj 1) PyNone True VNone]"

section \<open>Properties of the table, the cache and the resolution\<close>

lemma scan_conv:
  "scan k rs = map snd (filter (\<lambda>e. snd (fst e) = NONE_ID \<or> snd (fst e) = k) rs)"
  by (induction k rs rule: scan.induct) auto

lemma resolve_conv:
  "resolve dead hs = map target (filter (\<lambda>h. \<not> is_dead_ref dead h) hs)"
  by (induction dead hs rule: resolve.induct) auto

lemma has_key_conv: "has_key k rs = (k \<in> fst ` set rs)"
  by (induction rs) auto


lemma remove_first_keys:
  "map fst (snd (remove_first k rs)) = remove1 k (map fst rs)"
  by (induction rs) (auto split: prod.splits if_splits)


lemma remove_first_subset: "set (snd (remove_first k rs)) \<subseteq> set rs"
  by (induction rs) (auto split: prod.splits if_splits)


lemma scan_compact:
  "scan k (filter (\<lambda>r. \<not> is_dead_ref dead (snd r)) rs) =
   filter (\<lambda>h. \<not> is_dead_ref dead h) (scan k rs)"
  by (induction k rs rule: scan.induct) auto

lemma connected_live_conv:
  "connected_live dead s sender = resolve dead (scan (make_id sender) (receivers s))"
  by (simp add: connected_live_def resolve_conv scan_conv filter_map o_def selects_def NONE_ID_def)


lemma filter_dead_mono:
  "filter (\<lambda>h. \<not> is_dead_ref (insert n dead) h) (filter (\<lambda>h. \<not> is_dead_ref dead h) hs) =
   filter (\<lambda>h. \<not> is_dead_ref (insert n dead) h) hs"
proof -
  have "\<not> is_dead_ref (insert n dead) h \<Longrightarrow> \<not> is_dead_ref dead h" for h
  proof (cases h)
    case (Strong r)
    then show ?thesis by simp
  next
    case (Weak r)
    assume "\<not> is_dead_ref (insert n dead) h"
    with Weak show ?thesis by (cases r) auto
  qed
  then show ?thesis by (induction hs) auto
qed

lemma consistent_clear: "consistent dead s \<Longrightarrow> consistent dead (clear_dead_receivers dead s)"
  by (auto simp: consistent_def clear_dead_receivers_def distinct_map_filter scan_compact)

lemma consistent_connect:
  assumes "consistent dead s" "connect cf dead s receiver sender weak uid = Inr s'"
  shows "consistent dead s'"
proof -
  let ?s1 = "clear_dead_receivers dead s"
  have c1: "consistent dead ?s1" using assms(1) by (rule consistent_clear)
  from assms(2) show ?thesis
    using c1
    by (auto simp: connect_def Let_def consistent_def has_key_conv split: if_splits)
qed

lemma consistent_disconnect:
  assumes "consistent dead s"
  shows "consistent dead (snd (disconnect dead s receiver sender weak uid))"
proof -
  let ?s1 = "clear_dead_receivers dead s"
  have c1: "consistent dead ?s1" using assms(1) by (rule consistent_clear)
  then have "distinct (map fst (snd (remove_first k (receivers ?s1))))" for k
    by (simp add: remove_first_keys consistent_def)
  then have d: "remove_first k (receivers ?s1) = (x1, x2) \<Longrightarrow> distinct (map fst x2)" for k x1 x2
    by (metis snd_conv)
  from c1 show ?thesis
    by (auto simp: disconnect_def Let_def consistent_def split: prod.splits dest: d)
qed

lemma consistent_rescan:
  assumes "consistent dead s"
  shows "consistent dead (fst (rescan dead s sender))"
proof -
  let ?s1 = "clear_dead_receivers dead s"
  have c1: "consistent dead ?s1" using assms(1) by (rule consistent_clear)
  then show ?thesis
    by (auto simp: rescan_def Let_def cache_set_def consistent_def split: sum.splits if_splits)
qed

lemma consistent_live:
  assumes "consistent dead s"
  shows "consistent dead (post (live_receivers dead s sender))"
proof -
  have "consistent dead (fst (rescan dead s sender))"
    using assms by (rule consistent_rescan)
  with assms show ?thesis
    by (auto simp: live_receivers_def Let_def
        split: sum.splits option.splits cache_val.splits prod.splits)
qed

lemma consistent_dispatch:
  assumes "consistent dead s"
  shows "consistent dead (post (dispatch loop dead s sender))"
proof -
  have "consistent dead (post (live_receivers dead s sender))"
    using assms by (rule consistent_live)
  with assms show ?thesis
    by (auto simp: dispatch_def Let_def
        split: sum.splits option.splits cache_val.splits prod.splits)
qed

lemma consistent_collect: "consistent dead s \<Longrightarrow> consistent (insert n dead) s"
  unfolding consistent_def
  by (metis filter_dead_mono)

lemma consistent_remove_receiver: "consistent dead s \<Longrightarrow> consistent dead (remove_receiver s)"
  by (simp add: consistent_def remove_receiver_def)

lemma consistent_Signal: "consistent dead (Signal pargs caching)"
  by (simp add: consistent_def Signal_def)

lemma consistent_exec:
  "consistent (fst w) (snd w) \<Longrightarrow> consistent (fst (exec call cf w x)) (snd (exec call cf w x))"
proof (cases w)
  case (Pair dead s)
  assume "consistent (fst w) (snd w)"
  with Pair have c: "consistent dead s" by simp
  show ?thesis
  proof (cases x)
    case (Connect r sd wk u)
    with Pair c show ?thesis
      by (auto split: sum.splits dest: consistent_connect)
  next
    case (Disconnect r sd wk u)
    with Pair c show ?thesis by (simp add: consistent_disconnect)
  next
    case (Send sd nm)
    with Pair c show ?thesis by (simp add: send_def consistent_dispatch)
  next
    case (SendRobust sd nm)
    with Pair c show ?thesis by (simp add: send_robust_def consistent_dispatch)
  next
    case (HasListeners sd)
    with Pair c show ?thesis by (simp add: has_listeners_def Let_def consistent_live)
  next
    case (Collect n b)
    with Pair c show ?thesis
      by (simp add: consistent_collect consistent_remove_receiver)
  next
    case (Expire sd)
    with Pair c show ?thesis by (auto simp: consistent_def)
  qed
qed

lemma consistent_run:
  "consistent (fst w) (snd w) \<Longrightarrow> consistent (fst (run call cf w xs)) (snd (run call cf w xs))"
  unfolding run_def
proof (induction xs arbitrary: w)
  case Nil
  then show ?case by simp
next
  case (Cons x xs)
  from Cons.prems have "consistent (fst (exec call cf w x)) (snd (exec call cf w x))"
    by (rule consistent_exec)
  then show ?case using Cons.IH by simp
qed

lemma reached_consistent:
  "run call cf (dead0, Signal pargs caching) xs = (dead, s) \<Longrightarrow> consistent dead s"
  using consistent_run [of "(dead0, Signal pargs caching)" call cf xs]
  by (simp add: consistent_Signal)


lemma resolve_filter_cong:
  "filter (\<lambda>h. \<not> is_dead_ref dead h) hs = filter (\<lambda>h. \<not> is_dead_ref dead h) hs'
   \<Longrightarrow> resolve dead hs = resolve dead hs'"
  by (simp add: resolve_conv)

lemma clear_dead_connected_live:
  "connected_live dead (clear_dead_receivers dead s) sender = connected_live dead s sender"
proof -
  have "filter (\<lambda>e. selects sender e \<and> \<not> is_dead_ref dead (snd e))
          (filter (\<lambda>r. \<not> is_dead_ref dead (snd r)) rs) =
        filter (\<lambda>e. selects sender e \<and> \<not> is_dead_ref dead (snd e)) rs" for rs
    by (induction rs) auto
  then show ?thesis
    by (simp add: connected_live_def clear_dead_receivers_def)
qed

lemma consistent_cached:
  "consistent dead s \<Longrightarrow> sender_receivers_cache s sender = Some v \<Longrightarrow>
   resolve dead (cached_handles v) = connected_live dead s sender"
  unfolding consistent_def connected_live_conv
  by (blast intro: resolve_filter_cong)

lemma rescan_result:
  assumes "cache_accepts s sender"
  shows "snd (rescan dead s sender) = Inr (scan (make_id sender) (receivers (clear_dead_receivers dead s)))"
  using assms
  by (auto simp: rescan_def Let_def cache_set_def cache_accepts_def clear_dead_receivers_def
      split: sum.splits)

lemma live_receivers_result:
  assumes "consistent dead s" "cache_accepts s sender"
  shows "result (live_receivers dead s sender) = Inr (connected_live dead s sender)"
proof -
  let ?look = "if use_caching s \<and> \<not> dead_receivers s then cache_get s sender else Inr None"
  have rs: "snd (rescan dead s sender) =
      Inr (scan (make_id sender) (receivers (clear_dead_receivers dead s)))"
    using assms(2) by (rule rescan_result)
  have fresh: "resolve dead (scan (make_id sender) (receivers (clear_dead_receivers dead s))) =
      connected_live dead s sender"
    using clear_dead_connected_live [of dead s sender] by (simp add: connected_live_conv)
  have hit: "resolve dead (cached_handles v) = connected_live dead s sender"
    if "sender_receivers_cache s sender = Some v" for v
    using assms(1) that by (rule consistent_cached)
  consider (miss) "?look = Inr None" | (hit) v where "?look = Inr (Some v)"
    "sender_receivers_cache s sender = Some v"
    using assms(2)
    by (cases "use_caching s \<and> \<not> dead_receivers s"; cases "sender_receivers_cache s sender")
       (auto simp: cache_get_def cache_accepts_def)
  then show ?thesis
  proof cases
    case miss
    then show ?thesis
      using rs fresh
      by (cases "rescan dead s sender") (auto simp: live_receivers_def Let_def)
  next
    case (hit v)
    then show ?thesis
      using consistent_cached [OF assms(1) hit(2)]
      by (cases v) (auto simp: live_receivers_def Let_def)
  qed
qed

lemma dispatch_result:
  assumes "consistent dead s" "cache_accepts s sender" "loop [] = ([], Inr [])"
  shows "calls (dispatch loop dead s sender) = fst (loop (connected_live dead s sender))"
    and "result (dispatch loop dead s sender) = snd (loop (connected_live dead s sender))"
proof -
  have lr: "result (live_receivers dead s sender) = Inr (connected_live dead s sender)"
    using assms(1,2) by (rule live_receivers_result)
  have empty: "receivers s = [] \<Longrightarrow> connected_live dead s sender = []"
    by (simp add: connected_live_def)
  have sentinel: "sender_receivers_cache s sender = Some NO_RECEIVERS
      \<Longrightarrow> connected_live dead s sender = []"
    using consistent_cached [OF assms(1), of sender NO_RECEIVERS] by simp
  have get: "cache_get s sender = Inr (sender_receivers_cache s sender)"
    using assms(2) by (auto simp: cache_get_def cache_accepts_def)
  show "calls (dispatch loop dead s sender) = fst (loop (connected_live dead s sender))"
    using lr empty sentinel get assms(3)
    by (auto simp: dispatch_def Let_def split: option.splits cache_val.splits prod.splits)
  show "result (dispatch loop dead s sender) = snd (loop (connected_live dead s sender))"
    using lr empty sentinel get assms(3)
    by (auto simp: dispatch_def Let_def split: option.splits cache_val.splits prod.splits)
qed














lemma send_loop_returned:
  "snd (send_loop call sender named rs) = Inr pairs \<Longrightarrow>
   fst (send_loop call sender named rs) = rs \<and> map fst pairs = rs"
  by (induction rs arbitrary: pairs) (auto split: outcome.splits prod.splits sum.splits)



lemma clear_dead_use_caching [simp]:
  "use_caching (clear_dead_receivers dead s) = use_caching s"
  by (simp add: clear_dead_receivers_def)



















lemma ex_twice_eval:
  "ex_twice = ({}, \<lparr>receivers = [((VInt 2, VInt 6), Weak (Obj 1)), ((VInt 2, VInt 0), Weak (Obj 1))],
                 providing_args = {}, use_caching = False,
                 sender_receivers_cache = Map.empty, dead_receivers = False\<rparr>)"
  by (simp add: ex_twice_def run_def connect_def connect_key_def clear_dead_receivers_def
      py_id_def ex_conf_def Signal_def)

lemma connect_result:
  assumes "connect cf dead s receiver sender weak uid = Inr s1"
  shows "has_key (connect_key receiver sender uid) (receivers s1)"
    and "\<not> dead_receivers s1"
    and "sender_receivers_cache s1 = Map.empty"
  using assms
  by (auto simp: connect_def Let_def clear_dead_receivers_def has_key_conv split: if_splits)

lemma connect_again:
  assumes "connect cf dead s receiver sender weak uid = Inr s1"
    and "weak' \<longrightarrow> weakrefable receiver"
  shows "connect cf dead' s1 receiver sender weak' uid = Inr s1"
proof -
  note r = connect_result [OF assms(1)]
  have dbg: "\<not> (DEBUG cf \<and> \<not> callable cf receiver)"
    "\<not> (DEBUG cf \<and> \<not> func_accepts_kwargs cf receiver)"
    using assms(1) by (auto simp: connect_def split: if_splits)
  have cd: "clear_dead_receivers dead' s1 = s1"
    using r(2) by (simp add: clear_dead_receivers_def)
  show ?thesis
    using dbg assms(2) r(1,3) by (simp add: connect_def Let_def cd)
qed

lemma distinct_key_once:
  "distinct (map fst rs) \<Longrightarrow> has_key k rs \<Longrightarrow> length (filter (\<lambda>e. fst e = k) rs) = 1"
proof (induction rs)
  case Nil
  then show ?case by simp
next
  case (Cons e rs)
  obtain k' h where e: "e = (k', h)" by (cases e)
  show ?case
  proof (cases "k' = k")
    case True
    with Cons.prems e have "k \<notin> fst ` set rs" by auto
    then have "filter (\<lambda>e. fst e = k) rs = []" by (auto simp: filter_empty_conv)
    with True e show ?thesis by simp
  next
    case False
    with Cons e show ?thesis by simp
  qed
qed

lemma connect_appends:
  assumes "connect cf dead s receiver sender weak uid = Inr s1"
    and "\<not> has_key (connect_key receiver sender uid) (receivers (clear_dead_receivers dead s))"
  shows "receivers s1 = receivers (clear_dead_receivers dead s) @
           [(connect_key receiver sender uid, if weak then Weak receiver else Strong receiver)]"
  using assms by (auto simp: connect_def Let_def split: if_splits)

lemma connected_live_append:
  assumes "receivers s1 = receivers (clear_dead_receivers dead s) @ [((k, make_id sender), h)]"
    and "sender = PyNone \<or> sender = sender'" and "\<not> is_dead_ref dead h"
  shows "connected_live dead s1 sender' = connected_live dead s sender' @ [target h]"
proof -
  have "selects sender' ((k, make_id sender), h)"
    using assms(2) by (auto simp: selects_def)
  then have "connected_live dead s1 sender' =
      connected_live dead (clear_dead_receivers dead s) sender' @ [target h]"
    using assms(1,3) by (simp add: connected_live_def)
  then show ?thesis by (simp add: clear_dead_connected_live)
qed




lemma clear_dead_flag [simp]: "\<not> dead_receivers (clear_dead_receivers dead s)"
  by (simp add: clear_dead_receivers_def)










section \<open>The claims\<close>

text \<open>
  C7. A call of \<open>connect\<close> that returns leaves the sender cache empty, also when the
  key was already in the table and the table only went through the compaction;
  beside the table, the dead-receivers flag and the cache, no field of the signal
  changes.
\<close>

theorem connect_clears_cache:
  assumes "connect cf dead s receiver sender weak dispatch_uid = Inr s'"
  shows "sender_receivers_cache s' = Map.empty \<and>
         (has_key (connect_key receiver sender dispatch_uid)
              (receivers (clear_dead_receivers dead s))
            \<longrightarrow> receivers s' = receivers (clear_dead_receivers dead s)) \<and>
         dead_receivers s' = dead_receivers (clear_dead_receivers dead s) \<and>
         providing_args s' = providing_args s \<and>
         use_caching s' = use_caching s \<and>
         s' = s\<lparr>receivers := receivers s', dead_receivers := dead_receivers s',
                sender_receivers_cache := Map.empty\<rparr>"
  using assms
  by (auto simp: connect_def Let_def clear_dead_receivers_def split: if_splits)

theorem connect_clears_cache_witness:
  "connect \<lparr>DEBUG = False, callable = (\<lambda>r. True), func_accepts_kwargs = (\<lambda>r. True)\<rparr> {}
     \<lparr>receivers = [((VInt 2, VInt 0), Weak (Obj 1))], providing_args = {''instance''},
      use_caching = True,
      sender_receivers_cache = [Obj 5 \<mapsto> Cached [Weak (Obj 1)]],
      dead_receivers = False\<rparr>
     (Obj 1) PyNone True VNone =
   Inr \<lparr>receivers = [((VInt 2, VInt 0), Weak (Obj 1))], providing_args = {''instance''},
        use_caching = True, sender_receivers_cache = Map.empty, dead_receivers = False\<rparr>
   \<and> sender_receivers_cache
        \<lparr>receivers = [((VInt 2, VInt 0), Weak (Obj 1))], providing_args = {''instance''},
         use_caching = True, sender_receivers_cache = Map.empty, dead_receivers = False\<rparr>
       = Map.empty"
proof -
  have c: "connect \<lparr>DEBUG = False, callable = (\<lambda>r. True), func_accepts_kwargs = (\<lambda>r. True)\<rparr> {}
     \<lparr>receivers = [((VInt 2, VInt 0), Weak (Obj 1))], providing_args = {''instance''},
      use_caching = True,
      sender_receivers_cache = [Obj 5 \<mapsto> Cached [Weak (Obj 1)]],
      dead_receivers = False\<rparr>
     (Obj 1) PyNone True VNone =
   Inr \<lparr>receivers = [((VInt 2, VInt 0), Weak (Obj 1))], providing_args = {''instance''},
        use_caching = True, sender_receivers_cache = Map.empty, dead_receivers = False\<rparr>"
    by (simp add: connect_def connect_key_def clear_dead_receivers_def py_id_def)
  from connect_clears_cache [OF c] c show ?thesis by simp
qed

















text \<open>
  C4, as stated, fails. A (object 1) was connected for the sender 5 and for every
  sender. Connecting it for the sender 5 a second time changes nothing and the
  table has one entry for each key, yet a \<open>send\<close> for the sender 5 invokes A
  twice, once for each of its two entries.
\<close>

theorem connect_idempotent_counterexample:
  "connect ex_conf (fst ex_twice) (snd ex_twice) (Obj 1) (Obj 5) True VNone = Inr (snd ex_twice) \<and>
   distinct (map fst (receivers (snd ex_twice))) \<and>
   calls (send ex_call (fst ex_twice) (snd ex_twice) (Obj 5) ()) = [Obj 1, Obj 1]"
  by (simp add: ex_twice_eval connect_def connect_key_def send_def dispatch_def cache_get_def
      live_receivers_def rescan_def clear_dead_receivers_def NONE_ID_def ex_call_def py_id_def
      ex_conf_def Let_def)

text \<open>
  C4, amended. After any sequence of operations the table has at most one entry
  for each lookup key. A \<open>connect\<close> that returns leaves exactly one entry with its
  key, and the same \<open>connect\<close> repeated (also with another \<open>weak\<close>) changes nothing:
  no entry is added or replaced, so every later \<open>send\<close> does what it would have
  done after the first. If the first \<open>connect\<close> added the entry (the key was not in
  the compacted table) and the receiver is alive, a dispatch for a matching
  sender reaches the receivers it reached before and then this receiver; if
  no other entry brought the receiver into that dispatch, a \<open>send\<close> that returns has
  invoked it exactly once.
\<close>

theorem connect_idempotent:
  assumes "run call cf (dead0, Signal pargs caching) xs = (dead, s)"
    and "connect cf dead s receiver sender weak dispatch_uid = Inr s1"
  shows "distinct (map fst (receivers s)) \<and> distinct (map fst (receivers s1)) \<and>
         length (filter (\<lambda>e. fst e = connect_key receiver sender dispatch_uid) (receivers s1)) = 1 \<and>
         (\<forall>weak' dead'. (weak' \<longrightarrow> weakrefable receiver) \<longrightarrow>
            connect cf dead' s1 receiver sender weak' dispatch_uid = Inr s1) \<and>
         (\<forall>sender'.
            \<not> has_key (connect_key receiver sender dispatch_uid)
                (receivers (clear_dead_receivers dead s)) \<and>
            (weak \<longrightarrow> alive dead receiver) \<and> (sender = PyNone \<or> sender = sender') \<longrightarrow>
            connected_live dead s1 sender' = connected_live dead s sender' @ [receiver]) \<and>
         (\<forall>sender' named pairs.
            \<not> has_key (connect_key receiver sender dispatch_uid)
                (receivers (clear_dead_receivers dead s)) \<and>
            (weak \<longrightarrow> alive dead receiver) \<and> (sender = PyNone \<or> sender = sender') \<and>
            receiver \<notin> set (connected_live dead s sender') \<and> cache_accepts s1 sender' \<and>
            result (send call dead s1 sender' named) = Inr pairs \<longrightarrow>
            count_list (calls (send call dead s1 sender' named)) receiver = 1)"
proof -
  let ?k = "connect_key receiver sender dispatch_uid"
  let ?h = "if weak then Weak receiver else Strong receiver"
  have c: "consistent dead s" using assms(1) by (rule reached_consistent)
  have c1: "consistent dead s1" using c assms(2) by (rule consistent_connect)
  have 1: "distinct (map fst (receivers s))" using c by (simp add: consistent_def)
  have 2: "distinct (map fst (receivers s1))" using c1 by (simp add: consistent_def)
  have 3: "length (filter (\<lambda>e. fst e = ?k) (receivers s1)) = 1"
    using 2 connect_result(1) [OF assms(2)] by (rule distinct_key_once)
  have 4: "connect cf dead' s1 receiver sender weak' dispatch_uid = Inr s1"
    if "weak' \<longrightarrow> weakrefable receiver" for weak' dead'
    using assms(2) that by (rule connect_again)
  have 5: "connected_live dead s1 sender' = connected_live dead s sender' @ [receiver]"
    if "\<not> has_key ?k (receivers (clear_dead_receivers dead s))"
      "weak \<longrightarrow> alive dead receiver" "sender = PyNone \<or> sender = sender'" for sender'
  proof -
    have "snd ?k = make_id sender" by (simp add: connect_key_def)
    then obtain k where k: "?k = (k, make_id sender)"
      by (cases ?k) simp
    have "receivers s1 = receivers (clear_dead_receivers dead s) @ [((k, make_id sender), ?h)]"
      using connect_appends [OF assms(2) that(1)] k by simp
    from connected_live_append [OF this that(3)] that(2) show ?thesis
      by (simp split: if_splits)
  qed
  have 6: "count_list (calls (send call dead s1 sender' named)) receiver = 1"
    if "\<not> has_key ?k (receivers (clear_dead_receivers dead s))"
      "weak \<longrightarrow> alive dead receiver" "sender = PyNone \<or> sender = sender'"
      "receiver \<notin> set (connected_live dead s sender')" "cache_accepts s1 sender'"
      "result (send call dead s1 sender' named) = Inr pairs" for sender' named pairs
  proof -
    have l0: "send_loop call sender' named [] = ([], Inr [])" by simp
    note d = dispatch_result [where loop = "send_loop call sender' named", OF c1 that(5) l0]
    from that(6) have "snd (send_loop call sender' named (connected_live dead s1 sender')) = Inr pairs"
      by (simp add: send_def d(2))
    from send_loop_returned [OF this]
    have "calls (send call dead s1 sender' named) = connected_live dead s1 sender'"
      by (simp add: send_def d(1))
    then show ?thesis
      using 5 [OF that(1-3)] that(4) by (simp add: count_list_0_iff)
  qed
  from 1 2 3 4 5 6 show ?thesis by blast
qed

theorem connect_idempotent_witness:
  "connect ex_conf {} (Signal None False) (Obj 1) (Obj 5) True VNone =
     Inr \<lparr>receivers = [((VInt 2, VInt 6), Weak (Obj 1))], providing_args = {},
          use_caching = False, sender_receivers_cache = Map.empty, dead_receivers = False\<rparr> \<and>
   connect ex_conf {}
     \<lparr>receivers = [((VInt 2, VInt 6), Weak (Obj 1))], providing_args = {},
      use_caching = False, sender_receivers_cache = Map.empty, dead_receivers = False\<rparr>
     (Obj 1) (Obj 5) True VNone =
     Inr \<lparr>receivers = [((VInt 2, VInt 6), Weak (Obj 1))], providing_args = {},
          use_caching = False, sender_receivers_cache = Map.empty, dead_receivers = False\<rparr> \<and>
   count_list (calls (send ex_call {}
     \<lparr>receivers = [((VInt 2, VInt 6), Weak (Obj 1))], providing_args = {},
      use_caching = False, sender_receivers_cache = Map.empty, dead_receivers = False\<rparr>
     (Obj 5) ())) (Obj 1) = 1"
proof -
  let ?s1 = "\<lparr>receivers = [((VInt 2, VInt 6), Weak (Obj 1))], providing_args = {},
      use_caching = False, sender_receivers_cache = Map.empty, dead_receivers = False\<rparr>"
  have r: "run ex_call ex_conf ({}, Signal None False) [] = ({}, Signal None False)"
    by (simp add: run_def)
  have c: "connect ex_conf {} (Signal None False) (Obj 1) (Obj 5) True VNone = Inr ?s1"
    by (simp add: connect_def connect_key_def clear_dead_receivers_def py_id_def ex_conf_def
        Signal_def)
  have h: "\<not> has_key (connect_key (Obj 1) (Obj 5) VNone)
      (receivers (clear_dead_receivers {} (Signal None False)))"
    by (simp add: clear_dead_receivers_def Signal_def)
  have n: "Obj 1 \<notin> set (connected_live {} (Signal None False) (Obj 5))"
    by (simp add: connected_live_def Signal_def)
  have a: "cache_accepts ?s1 (Obj 5)" by (simp add: cache_accepts_def)
  have v: "result (send ex_call {} ?s1 (Obj 5) ()) = Inr [(Obj 1, 10)]"
    by (simp add: send_def dispatch_def cache_get_def live_receivers_def rescan_def
        clear_dead_receivers_def NONE_ID_def ex_call_def py_id_def Let_def)
  note t = connect_idempotent [OF r c]
  from t have again: "connect ex_conf {} ?s1 (Obj 1) (Obj 5) True VNone = Inr ?s1"
    by simp
  from t h n a v have "count_list (calls (send ex_call {} ?s1 (Obj 5) ())) (Obj 1) = 1"
    by (metis alive.simps(2) empty_iff)
  with c again show ?thesis by simp
qed






end
